theory Spec2Isabelle
  imports Main "HOL-Library.Word"
begin

section \<open>Data model of soteria.go\<close>

text \<open>
  The three states and the two inputs of the breaker's state machine
  (soteria.go, lines 11-20), in the order of the \<open>iota\<close> constants.
\<close>

datatype State = StateClosed | StateHalfOpen | StateOpen

datatype Input = Ok | NotOk

text \<open>
  \<open>time.Time\<close> is an instant counted in nanoseconds from the zero instant of the type,
  so that \<open>IsZero\<close> is the comparison with 0; \<open>time.Duration\<close> is a signed number of
  nanoseconds. Both are unbounded integers here: no claim depends on the range of the
  clock.
\<close>

type_synonym Time = int
type_synonym Duration = int

definition zero :: Time where
  "zero = 0"

definition IsZero :: "Time \<Rightarrow> bool" where
  "IsZero t = (t = 0)"

definition Before :: "Time \<Rightarrow> Time \<Rightarrow> bool" where
  "Before t u = (t < u)"

definition Add :: "Time \<Rightarrow> Duration \<Rightarrow> Time" where
  "Add t d = t + d"

definition Second :: Duration where
  "Second = 1000000000"

definition defaultTimeout :: Duration where
  "defaultTimeout = 60 * Second"

text \<open>
  The errors \<open>Execute\<close> can return: the two package errors (lines 24-26), the error of
  the state machine when it has no rule for an input, and the error of the guarded
  operation, passed through.
\<close>

datatype 'e error = ErrTooManyRequests | ErrOpenState | ErrNoRule | ErrOperation 'e

subsection \<open>Stats (lines 31-62)\<close>

record Stats =
  Requests :: "32 word"
  TotalSuccesses :: "32 word"
  TotalFailures :: "32 word"
  ConsecutiveSuccesses :: "32 word"
  ConsecutiveFailures :: "32 word"

text \<open>
  \<open>atomic.AddUint32(p, d)\<close> is the wrapping addition on \<open>uint32\<close>; the resets add the
  negation of the field's own value.
\<close>

definition request :: "Stats \<Rightarrow> Stats" where
  "request c = c\<lparr>Requests := Requests c + 1\<rparr>"

definition success :: "Stats \<Rightarrow> Stats" where
  "success c =
     (let c1 = c\<lparr>TotalSuccesses := TotalSuccesses c + 1\<rparr>;
          c2 = c1\<lparr>ConsecutiveSuccesses := ConsecutiveSuccesses c1 + 1\<rparr>
      in c2\<lparr>ConsecutiveFailures := ConsecutiveFailures c2 + (- ConsecutiveFailures c2)\<rparr>)"

definition failure :: "Stats \<Rightarrow> Stats" where
  "failure c =
     (let c1 = c\<lparr>TotalFailures := TotalFailures c + 1\<rparr>;
          c2 = c1\<lparr>ConsecutiveFailures := ConsecutiveFailures c1 + 1\<rparr>
      in c2\<lparr>ConsecutiveSuccesses := ConsecutiveSuccesses c2 + (- ConsecutiveSuccesses c2)\<rparr>)"

definition clear :: "Stats \<Rightarrow> Stats" where
  "clear c =
     (let c1 = c\<lparr>Requests := Requests c + (- Requests c)\<rparr>;
          c2 = c1\<lparr>TotalSuccesses := TotalSuccesses c1 + (- TotalSuccesses c1)\<rparr>;
          c3 = c2\<lparr>TotalFailures := TotalFailures c2 + (- TotalFailures c2)\<rparr>;
          c4 = c3\<lparr>ConsecutiveSuccesses := ConsecutiveSuccesses c3 + (- ConsecutiveSuccesses c3)\<rparr>
      in c4\<lparr>ConsecutiveFailures := ConsecutiveFailures c4 + (- ConsecutiveFailures c4)\<rparr>)"

text \<open>The zero value of the struct.\<close>

definition zeroStats :: Stats where
  "zeroStats = \<lparr>Requests = 0, TotalSuccesses = 0, TotalFailures = 0,
     ConsecutiveSuccesses = 0, ConsecutiveFailures = 0\<rparr>"

subsection \<open>Settings and CircuitBreaker (lines 84-104)\<close>

text \<open>A nil \<open>ReadyToTrip\<close> is \<open>None\<close>.\<close>

record Settings =
  Name :: string
  MaxRequests :: "32 word"
  Interval :: Duration
  Timeout :: Duration
  ReadyToTrip :: "(Stats \<Rightarrow> bool) option"

text \<open>
  The embedded \<open>*persephone.AbstractFSM\<close> is represented by its current state, the field
  \<open>fsm\<close>; its rule table is the constant \<open>init\<close> below. The mutex carries no data and is
  left to the section on locking.
\<close>

record CircuitBreaker =
  name :: string
  maxRequests :: "32 word"
  interval :: Duration
  timeout :: Duration
  readyToTrip :: "Stats \<Rightarrow> bool"
  generation :: "64 word"
  stats :: Stats
  expiry :: Time
  fsm :: State

definition defaultReadyToTrip :: "Stats \<Rightarrow> bool" where
  "defaultReadyToTrip s = (ConsecutiveFailures s > 5)"

text \<open>
  Modelled from the spec: \<open>GetState\<close> of the persephone library, which is not part of
  the sources; it reads the current state of the machine.
\<close>

definition GetState :: "CircuitBreaker \<Rightarrow> State" where
  "GetState cb = fsm cb"

section \<open>Operations\<close>

subsection \<open>generate and currentState (lines 248-278)\<close>

definition generate :: "Time \<Rightarrow> CircuitBreaker \<Rightarrow> CircuitBreaker" where
  "generate now cb =
     (let cb1 = cb\<lparr>generation := generation cb + 1\<rparr>;
          cb2 = cb1\<lparr>stats := clear (stats cb1)\<rparr>
      in case GetState cb2 of
           StateClosed \<Rightarrow>
             (if interval cb2 = 0 then cb2\<lparr>expiry := zero\<rparr>
              else cb2\<lparr>expiry := Add now (interval cb2)\<rparr>)
         | StateOpen \<Rightarrow> cb2\<lparr>expiry := Add now (timeout cb2)\<rparr>
         | _ \<Rightarrow> cb2\<lparr>expiry := zero\<rparr>)"

definition currentState :: "Time \<Rightarrow> CircuitBreaker \<Rightarrow> CircuitBreaker" where
  "currentState now cb =
     (case GetState cb of
        StateClosed \<Rightarrow>
          (if \<not> IsZero (expiry cb) \<and> Before (expiry cb) now then generate now cb else cb)
      | StateOpen \<Rightarrow> (if Before (expiry cb) now then generate now cb else cb)
      | _ \<Rightarrow> cb)"

subsection \<open>The actions of the rules (lines 211-246)\<close>

text \<open>
  Every action returns a nil error, so an action is a function on the breaker. The
  argument \<open>now\<close> is the value \<open>time.Now()\<close> returns inside the action.
\<close>

definition ClosedOkAction :: "Time \<Rightarrow> CircuitBreaker \<Rightarrow> CircuitBreaker" where
  "ClosedOkAction now cb = cb\<lparr>stats := success (stats cb)\<rparr>"

definition HalfOpenOkAction :: "Time \<Rightarrow> CircuitBreaker \<Rightarrow> CircuitBreaker" where
  "HalfOpenOkAction now cb =
     (let cb1 = cb\<lparr>stats := success (stats cb)\<rparr>
      in if ConsecutiveSuccesses (stats cb1) \<ge> maxRequests cb1 then generate now cb1 else cb1)"

definition ClosedNotOkAction :: "Time \<Rightarrow> CircuitBreaker \<Rightarrow> CircuitBreaker" where
  "ClosedNotOkAction now cb =
     (let cb1 = cb\<lparr>stats := failure (stats cb)\<rparr>
      in if readyToTrip cb1 (stats cb1) then generate now cb1 else cb1)"

definition HalfOpenNotOkAction :: "Time \<Rightarrow> CircuitBreaker \<Rightarrow> CircuitBreaker" where
  "HalfOpenNotOkAction now cb = generate now cb"

subsection \<open>The rule table (init, lines 152-161)\<close>

text \<open>
  \<open>init src inp\<close> is the rule \<open>AddRule\<close> registered for the pair: the destination state
  and the action, \<open>None\<close> for the nil action; no rule was added for \<open>(StateOpen, Ok)\<close> and
  none leads to \<open>StateHalfOpen\<close>.
\<close>

fun init ::
  "State \<Rightarrow> Input \<Rightarrow> (State \<times> (Time \<Rightarrow> CircuitBreaker \<Rightarrow> CircuitBreaker) option) option"
where
  "init StateClosed NotOk = Some (StateOpen, Some ClosedNotOkAction)"
| "init StateClosed Ok = Some (StateClosed, Some ClosedOkAction)"
| "init StateOpen NotOk = Some (StateOpen, None)"
| "init StateHalfOpen Ok = Some (StateClosed, Some HalfOpenOkAction)"
| "init StateHalfOpen NotOk = Some (StateOpen, Some HalfOpenNotOkAction)"
| "init StateOpen Ok = None"

subsection \<open>Process\<close>

text \<open>
  The library runs the action of a rule and installs its destination state. Which of
  the two comes first decides the state \<open>generate\<close> reads inside an action, and the
  sources of this repository do not say; both orders are modelled.
\<close>

datatype sequencing = ActionFirst | StateFirst

text \<open>
  Modelled from the spec: \<open>Process\<close> of the persephone library, which is not part of the
  sources. Following the transition table of the spec, an input is looked up in the
  rules for the current state; the machine moves to the destination of the rule and
  runs its action; an input without a rule is an error and changes nothing. With
  \<open>StateFirst\<close> the action runs in the destination state, which is what the table's
  expiry column describes (\<open>now + timeout\<close> for the rules that lead to Open).
\<close>

definition Process ::
  "sequencing \<Rightarrow> Time \<Rightarrow> Input \<Rightarrow> CircuitBreaker \<Rightarrow> 'e error option \<times> CircuitBreaker"
where
  "Process ord now inp cb =
     (case init (GetState cb) inp of
        None \<Rightarrow> (Some ErrNoRule, cb)
      | Some (tgt, act) \<Rightarrow>
          (let run = (case act of None \<Rightarrow> (\<lambda>c. c) | Some a \<Rightarrow> a now)
           in case ord of
                ActionFirst \<Rightarrow> (None, (run cb)\<lparr>fsm := tgt\<rparr>)
              | StateFirst \<Rightarrow> (None, run (cb\<lparr>fsm := tgt\<rparr>))))"

subsection \<open>New (lines 106-146)\<close>

text \<open>
  \<open>now\<close> is the value of \<open>time.Now()\<close> at construction. The machine starts in
  \<open>StateClosed\<close>, the state registered as the initial one, and its generation and
  counters start from the zero values of the struct.
\<close>

definition New :: "Settings \<Rightarrow> Time \<Rightarrow> CircuitBreaker" where
  "New settings now =
     generate now
       \<lparr>name = Name settings,
        maxRequests = (if MaxRequests settings = 0 then 1 else MaxRequests settings),
        interval = Interval settings,
        timeout = (if Timeout settings = 0 then defaultTimeout else Timeout settings),
        readyToTrip =
          (case ReadyToTrip settings of None \<Rightarrow> defaultReadyToTrip | Some f \<Rightarrow> f),
        generation = 0,
        stats = zeroStats,
        expiry = zero,
        fsm = StateClosed\<rparr>"

subsection \<open>State and Execute (lines 167-209)\<close>

definition State :: "Time \<Rightarrow> CircuitBreaker \<Rightarrow> State \<times> CircuitBreaker" where
  "State now cb = (let cb1 = currentState now cb in (GetState cb1, cb1))"

text \<open>
  \<open>Execute\<close> in two halves around the call of the guarded operation: \<open>admit\<close> is lines
  177-189, the refresh, the two rejections and the count of the request; \<open>settle\<close> is
  lines 193-208, which feed the outcome to the machine. The operation \<open>req\<close> acts on a
  world \<open>'w\<close> of its own, so that a call of \<open>Execute\<close> that returns the world it was
  given has not invoked it. \<open>now\<close> is the clock at line 178 and \<open>tact\<close> the clock
  inside the action.
\<close>

definition admit :: "Time \<Rightarrow> CircuitBreaker \<Rightarrow> 'e error option \<times> CircuitBreaker" where
  "admit now cb =
     (let cb1 = currentState now cb
      in if GetState cb1 = StateOpen then (Some ErrOpenState, cb1)
         else if GetState cb1 = StateHalfOpen \<and> Requests (stats cb1) \<ge> maxRequests cb1
         then (Some ErrTooManyRequests, cb1)
         else (None, cb1\<lparr>stats := request (stats cb1)\<rparr>))"

definition settle ::
  "sequencing \<Rightarrow> Time \<Rightarrow> 'r option \<times> 'e option \<Rightarrow> CircuitBreaker \<Rightarrow>
     ('r option \<times> 'e error option) \<times> CircuitBreaker"
where
  "settle ord tact out cb =
     (case out of
        (result, Some err) \<Rightarrow>
          (case Process ord tact NotOk cb of
             (Some err_f, cb1) \<Rightarrow> ((result, Some err_f), cb1)
           | (None, cb1) \<Rightarrow> ((result, Some (ErrOperation err)), cb1))
      | (result, None) \<Rightarrow>
          (case Process ord tact Ok cb of
             (Some err_t, cb1) \<Rightarrow> ((result, Some err_t), cb1)
           | (None, cb1) \<Rightarrow> ((result, None), cb1)))"

definition Execute ::
  "sequencing \<Rightarrow> ('w \<Rightarrow> ('r option \<times> 'e option) \<times> 'w) \<Rightarrow> Time \<Rightarrow> Time \<Rightarrow> 'w \<Rightarrow>
     CircuitBreaker \<Rightarrow> ('r option \<times> 'e error option) \<times> 'w \<times> CircuitBreaker"
where
  "Execute ord req now tact w cb =
     (case admit now cb of
        (Some e, cb1) \<Rightarrow> ((None, Some e), w, cb1)
      | (None, cb1) \<Rightarrow>
          (case req w of
             (out, w') \<Rightarrow>
               (case settle ord tact out cb1 of (res, cb2) \<Rightarrow> (res, w', cb2))))"

section \<open>Sequences of calls\<close>

text \<open>
  A call of a public operation as the breaker sees it: \<open>ExecuteCall now tact failed\<close> is
  a call of \<open>Execute\<close> at time \<open>now\<close> whose operation returns a non-nil error exactly
  when \<open>failed\<close> holds, \<open>tact\<close> being the clock inside the action; \<open>StateCall now\<close> is a
  call of \<open>State\<close>. \<open>run\<close> performs the calls of a list one after the other.
\<close>

datatype call = ExecuteCall Time Time bool | StateCall Time

definition outcome :: "bool \<Rightarrow> unit \<Rightarrow> (unit option \<times> unit option) \<times> unit" where
  "outcome failed w = ((None, if failed then Some () else None), w)"

fun step :: "sequencing \<Rightarrow> call \<Rightarrow> CircuitBreaker \<Rightarrow> CircuitBreaker" where
  "step ord (ExecuteCall now tact failed) cb =
     snd (snd (Execute ord (outcome failed) now tact () cb))"
| "step ord (StateCall now) cb = snd (State now cb)"

fun run :: "sequencing \<Rightarrow> call list \<Rightarrow> CircuitBreaker \<Rightarrow> CircuitBreaker" where
  "run ord [] cb = cb"
| "run ord (c # cs) cb = run ord cs (step ord c cb)"

text \<open>
  The number of calls admitted when the admission halves of several calls of \<open>Execute\<close>
  run one after the other, at the times of the list, before any of the operations has
  returned.
\<close>

fun admitted :: "Time list \<Rightarrow> CircuitBreaker \<Rightarrow> nat" where
  "admitted [] cb = 0"
| "admitted (now # ts) cb =
     (case (admit now cb :: unit error option \<times> CircuitBreaker) of
        (None, cb1) \<Rightarrow> Suc (admitted ts cb1)
      | (Some e, cb1) \<Rightarrow> admitted ts cb1)"

text \<open>The condition under which \<open>Execute\<close> passes both rejections of lines 181-187.\<close>

definition admissible :: "CircuitBreaker \<Rightarrow> bool" where
  "admissible cb =
     (GetState cb \<noteq> StateOpen \<and>
      \<not> (GetState cb = StateHalfOpen \<and> maxRequests cb \<le> Requests (stats cb)))"


section \<open>Concrete breakers and operations\<close>

text \<open>
  Two guarded operations that count their invocations in the world, a natural number:
  one fails, one succeeds.
\<close>

definition failing :: "nat \<Rightarrow> (unit option \<times> string option) \<times> nat" where
  "failing n = ((None, Some ''connection refused''), Suc n)"

definition succeeding :: "nat \<Rightarrow> (unit option \<times> string option) \<times> nat" where
  "succeeding n = ((Some (), None), Suc n)"

text \<open>The zero value of \<open>Settings\<close> with a name: every default applies.\<close>

definition defaultSettings :: Settings where
  "defaultSettings =
     \<lparr>Name = ''HTTP GET'', MaxRequests = 0, Interval = 0, Timeout = 0, ReadyToTrip = None\<rparr>"

text \<open>A breaker made at time 1000 with the defaults, after one failing call at time 2000.\<close>

definition afterFailure :: "sequencing \<Rightarrow> CircuitBreaker" where
  "afterFailure ord = snd (snd (Execute ord failing 2000 2001 0 (New defaultSettings 1000)))"

text \<open>
  Settings that trip on the first failure, with a timeout of 100, and the breaker made
  from them at time 1000 after one failing call at time 2000.
\<close>

definition eagerSettings :: Settings where
  "eagerSettings =
     \<lparr>Name = ''eager'', MaxRequests = 0, Interval = 0, Timeout = 100,
      ReadyToTrip = Some (\<lambda>s. TotalFailures s \<ge> 1)\<rparr>"

definition tripped :: "sequencing \<Rightarrow> CircuitBreaker" where
  "tripped ord = snd (snd (Execute ord failing 2000 2001 0 (New eagerSettings 1000)))"

text \<open>A half-open breaker that allows two probes, at the start of its generation.\<close>

definition probing :: CircuitBreaker where
  "probing = (New (defaultSettings\<lparr>MaxRequests := 2\<rparr>) 1000)\<lparr>fsm := StateHalfOpen\<rparr>"

text \<open>
  A closed breaker with an interval of 500, made at time 1000, after one successful call
  at time 1200.
\<close>

definition windowed :: "sequencing \<Rightarrow> CircuitBreaker" where
  "windowed ord =
     snd (snd (Execute ord succeeding 1200 1201 0
       (New (defaultSettings\<lparr>Interval := 500\<rparr>) 1000)))"

text \<open>The same breaker after two probes were admitted: its quota is used up.\<close>

definition probingFull :: CircuitBreaker where
  "probingFull = probing\<lparr>stats := request (request (stats probing))\<rparr>"

text \<open>
  A breaker without a window: its interval is 0 and, unless it is Open, it is Closed
  with no expiry.
\<close>

definition unwindowed :: "CircuitBreaker \<Rightarrow> bool" where
  "unwindowed cb =
     (interval cb = 0 \<and>
      (GetState cb = StateOpen \<or> (GetState cb = StateClosed \<and> expiry cb = 0)))"

section \<open>Locking\<close>

text \<open>
  What a method does with the mutex and with the guarded fields (state, stats, expiry,
  generation), as the sequence of its events in program order: \<open>Lock\<close> and \<open>Unlock\<close> of
  \<open>cb.mutex\<close>, \<open>Access\<close> for a statement that reads or writes a guarded field, \<open>Invoke\<close>
  for the call of the guarded operation.
\<close>

datatype event = Lock | Unlock | Access | Invoke

text \<open>
  \<open>State\<close> (lines 167-174): the lock, \<open>currentState\<close>, \<open>GetState\<close>, and the deferred
  unlock at the return.
\<close>

definition State_events :: "event list" where
  "State_events = [Lock, Access, Access, Unlock]"

text \<open>
  Each of the four actions (lines 211-246) locks, works on the stats or calls
  \<open>generate\<close>, and unlocks at its return.
\<close>

definition action_events :: "event list" where
  "action_events = [Lock, Access, Unlock]"

text \<open>
  \<open>Process\<close> contributes the events of the action of the rule it finds; what the
  library does with its own state is not part of the sources.
\<close>

definition Process_events :: "Input \<Rightarrow> CircuitBreaker \<Rightarrow> event list" where
  "Process_events inp cb =
     (case init (GetState cb) inp of
        Some (tgt, Some a) \<Rightarrow> action_events
      | _ \<Rightarrow> [])"

text \<open>
  \<open>Execute\<close> (lines 176-209) along the path the call takes: \<open>currentState\<close> at line 179
  and \<open>GetState\<close> at line 181; if the call is not rejected there, the test of line 185;
  if it passes, \<open>stats.request()\<close> at line 189, the operation at line 191 and \<open>Process\<close>.
  No statement of \<open>Execute\<close> itself locks or unlocks.
\<close>

definition Execute_events :: "Time \<Rightarrow> bool \<Rightarrow> CircuitBreaker \<Rightarrow> event list" where
  "Execute_events now failed cb =
     (let cb1 = currentState now cb
      in Access # Access #
         (if GetState cb1 = StateOpen then []
          else Access #
            (if GetState cb1 = StateHalfOpen \<and> Requests (stats cb1) \<ge> maxRequests cb1
             then []
             else Access # Invoke #
               Process_events (if failed then NotOk else Ok)
                 (cb1\<lparr>stats := request (stats cb1)\<rparr>))))"

text \<open>
  \<open>guarded held es\<close>: every access of \<open>es\<close> happens while the mutex is held, \<open>held\<close>
  telling whether it is held at the start. \<open>released held es\<close>: the mutex is not held
  at any call of the guarded operation.
\<close>

fun guarded :: "bool \<Rightarrow> event list \<Rightarrow> bool" where
  "guarded held [] = True"
| "guarded held (Lock # es) = guarded True es"
| "guarded held (Unlock # es) = guarded False es"
| "guarded held (Access # es) = (held \<and> guarded held es)"
| "guarded held (Invoke # es) = guarded held es"

fun released :: "bool \<Rightarrow> event list \<Rightarrow> bool" where
  "released held [] = True"
| "released held (Lock # es) = released True es"
| "released held (Unlock # es) = released False es"
| "released held (Access # es) = released held es"
| "released held (Invoke # es) = (\<not> held \<and> released held es)"

section \<open>Basic facts\<close>

lemmas eval_defs = Execute_def admit_def settle_def Process_def New_def State_def
  currentState_def generate_def GetState_def Let_def
  clear_def request_def success_def failure_def zeroStats_def
  IsZero_def Before_def zero_def Add_def Second_def defaultTimeout_def defaultReadyToTrip_def
  ClosedOkAction_def ClosedNotOkAction_def HalfOpenOkAction_def HalfOpenNotOkAction_def
  failing_def succeeding_def defaultSettings_def eagerSettings_def
  afterFailure_def tripped_def probing_def windowed_def

lemma clear_zero: "clear c = zeroStats"
  by (simp add: clear_def zeroStats_def Let_def)

lemma GetState_generate: "GetState (generate now cb) = GetState cb"
  by (simp add: generate_def GetState_def Let_def split: State.splits)

lemma GetState_currentState: "GetState (currentState now cb) = GetState cb"
  by (simp add: currentState_def GetState_generate split: State.splits)


lemma generate_Open:
  "GetState cb = StateOpen \<Longrightarrow>
   generate now cb =
     cb\<lparr>generation := generation cb + 1, stats := zeroStats, expiry := now + timeout cb\<rparr>"
  by (simp add: generate_def Let_def clear_zero GetState_def Add_def)

lemma generate_Closed:
  "GetState cb = StateClosed \<Longrightarrow>
   generate now cb =
     cb\<lparr>generation := generation cb + 1, stats := zeroStats,
        expiry := (if interval cb = 0 then 0 else now + interval cb)\<rparr>"
  by (simp add: generate_def Let_def clear_zero GetState_def Add_def zero_def)

lemma generate_HalfOpen:
  "GetState cb = StateHalfOpen \<Longrightarrow>
   generate now cb = cb\<lparr>generation := generation cb + 1, stats := zeroStats, expiry := 0\<rparr>"
  by (simp add: generate_def Let_def clear_zero GetState_def Add_def zero_def)

lemma GetState_stats_update [simp]: "GetState (cb\<lparr>stats := s\<rparr>) = GetState cb"
  by (simp add: GetState_def)

lemma currentState_Open_early:
  "GetState cb = StateOpen \<Longrightarrow> now \<le> expiry cb \<Longrightarrow> currentState now cb = cb"
  by (simp add: currentState_def Before_def)

subsection \<open>The halves of Execute\<close>

lemma admit_Open:
  "GetState cb = StateOpen \<Longrightarrow> admit now cb = (Some ErrOpenState, currentState now cb)"
  by (simp add: admit_def Let_def GetState_currentState)

lemma admit_HalfOpen_full:
  "GetState cb = StateHalfOpen \<Longrightarrow> maxRequests cb \<le> Requests (stats cb) \<Longrightarrow>
   admit now cb = (Some ErrTooManyRequests, cb)"
  by (simp add: admit_def Let_def currentState_def)

lemma admit_HalfOpen_free:
  "GetState cb = StateHalfOpen \<Longrightarrow> Requests (stats cb) < maxRequests cb \<Longrightarrow>
   admit now cb = (None, cb\<lparr>stats := request (stats cb)\<rparr>)"
  by (simp add: admit_def Let_def currentState_def)

lemma fst_admit: "(fst (admit now cb) = None) = admissible (currentState now cb)"
  by (simp add: admit_def Let_def admissible_def)

lemma snd_admit:
  "snd (admit now cb) =
     (if admissible (currentState now cb)
      then (currentState now cb)\<lparr>stats := request (stats (currentState now cb))\<rparr>
      else currentState now cb)"
  by (simp add: admit_def Let_def admissible_def)

lemma snd_Process:
  "snd (Process ord now inp cb) =
     (case init (GetState cb) inp of
        None \<Rightarrow> cb
      | Some (tgt, act) \<Rightarrow>
          (case ord of
             ActionFirst \<Rightarrow>
               ((case act of None \<Rightarrow> (\<lambda>c. c) | Some a \<Rightarrow> a now) cb)\<lparr>fsm := tgt\<rparr>
           | StateFirst \<Rightarrow>
               (case act of None \<Rightarrow> (\<lambda>c. c) | Some a \<Rightarrow> a now) (cb\<lparr>fsm := tgt\<rparr>)))"
  by (simp add: Process_def split: option.splits prod.splits sequencing.splits)

lemma snd_settle:
  "snd (settle ord tact out cb :: ('r option \<times> 'e error option) \<times> CircuitBreaker) =
   snd (Process ord tact (if snd out = None then Ok else NotOk) cb
          :: 'e error option \<times> CircuitBreaker)"
  by (simp add: settle_def split: prod.splits option.splits)

lemma snd_snd_Execute:
  "snd (snd (Execute ord req now tact w cb
        :: ('r option \<times> 'e error option) \<times> 'w \<times> CircuitBreaker)) =
   (if fst (admit now cb :: 'e error option \<times> CircuitBreaker) = None
    then snd (Process ord tact (if snd (fst (req w)) = None then Ok else NotOk)
           (snd (admit now cb :: 'e error option \<times> CircuitBreaker))
           :: 'e error option \<times> CircuitBreaker)
    else snd (admit now cb :: 'e error option \<times> CircuitBreaker))"
proof (cases "admit now cb :: 'e error option \<times> CircuitBreaker")
  case (Pair e cb1)
  obtain out w' where r: "req w = (out, w')"
    by (cases "req w")
  obtain res cb2
    where s: "(settle ord tact out cb1
                :: ('r option \<times> 'e error option) \<times> CircuitBreaker) = (res, cb2)"
    by (cases "settle ord tact out cb1
                :: ('r option \<times> 'e error option) \<times> CircuitBreaker")
  have "cb2 = snd (Process ord tact (if snd out = None then Ok else NotOk) cb1
                :: 'e error option \<times> CircuitBreaker)"
    using snd_settle [of ord tact out cb1] s by simp
  then show ?thesis
    using Pair r s by (cases e) (simp_all add: Execute_def)
qed

text \<open>
  The breaker a call of \<open>Execute\<close> leaves depends on the operation only through whether
  its error is nil: the calls of \<open>run\<close> cover every operation.
\<close>

lemma Execute_breaker:
  "snd (snd (Execute ord req now tact w cb)) =
   step ord (ExecuteCall now tact (snd (fst (req w)) \<noteq> None)) cb"
proof -
  have o: "(snd (fst (outcome f ())) = None) = (\<not> f)" for f
    by (simp add: outcome_def)
  show ?thesis
    by (simp add: snd_snd_Execute o fst_admit snd_admit snd_Process)
qed

lemma step_Execute:
  "step ord (ExecuteCall now tact failed) cb =
     (if admissible (currentState now cb)
      then snd (Process ord tact (if failed then NotOk else Ok)
             ((currentState now cb)\<lparr>stats := request (stats (currentState now cb))\<rparr>)
             :: unit error option \<times> CircuitBreaker)
      else currentState now cb)"
  by (simp add: snd_snd_Execute fst_admit snd_admit outcome_def)

subsection \<open>The counters\<close>










lemma unat_request: "(r :: 32 word) < m \<Longrightarrow> unat (r + 1) = Suc (unat r)"
  by unat_arith

lemma admitted_bound:
  "GetState cb = StateHalfOpen \<Longrightarrow>
   admitted ts cb \<le> unat (maxRequests cb) - unat (Requests (stats cb))"
proof (induction ts arbitrary: cb)
  case Nil
  then show ?case by simp
next
  case (Cons now ts)
  show ?case
  proof (cases "Requests (stats cb) < maxRequests cb")
    case True
    let ?cb1 = "cb\<lparr>stats := request (stats cb)\<rparr>"
    have st: "GetState ?cb1 = StateHalfOpen" using Cons.prems by simp
    have "admitted ts ?cb1 \<le> unat (maxRequests ?cb1) - unat (Requests (stats ?cb1))"
      by (rule Cons.IH [OF st])
    moreover have "unat (Requests (stats ?cb1)) = Suc (unat (Requests (stats cb)))"
      using True by (simp add: request_def unat_request)
    moreover have "unat (Requests (stats cb)) < unat (maxRequests cb)"
      using True by (simp add: word_less_nat_alt)
    ultimately show ?thesis
      using Cons.prems True by (simp add: admit_HalfOpen_free)
  next
    case False
    then have full: "maxRequests cb \<le> Requests (stats cb)" by simp
    have "admitted ts cb \<le> unat (maxRequests cb) - unat (Requests (stats cb))"
      by (rule Cons.IH [OF Cons.prems])
    then show ?thesis using Cons.prems full by (simp add: admit_HalfOpen_full)
  qed
qed

subsection \<open>Breakers without a window\<close>

lemma interval_generate: "interval (generate now cb) = interval cb"
  by (simp add: generate_def Let_def split: State.splits)

lemma unwindowed_generate_Open:
  "interval cb = 0 \<Longrightarrow> GetState cb = StateOpen \<Longrightarrow> unwindowed (generate now cb)"
  by (simp add: unwindowed_def interval_generate GetState_generate)

lemma unwindowed_currentState: "unwindowed cb \<Longrightarrow> unwindowed (currentState now cb)"
  by (auto simp add: unwindowed_def currentState_def IsZero_def interval_generate GetState_generate)

lemma unwindowed_Process_Closed:
  assumes "interval cb = 0" and "GetState cb = StateClosed" and "expiry cb = 0"
  shows "unwindowed (snd (Process ord tact inp cb :: 'e error option \<times> CircuitBreaker))"
proof (cases inp)
  case Ok
  then show ?thesis using assms
    by (cases ord) (simp_all add: snd_Process ClosedOkAction_def unwindowed_def GetState_def)
next
  case NotOk
  then show ?thesis using assms
    by (cases ord)
       (simp_all add: snd_Process ClosedNotOkAction_def unwindowed_def Let_def
          interval_generate GetState_generate, simp_all add: GetState_def)
qed

lemma unwindowed_step: "unwindowed cb \<Longrightarrow> unwindowed (step ord c cb)"
proof (cases c)
  case (ExecuteCall now tact failed)
  assume "unwindowed cb"
  then have u1: "unwindowed (currentState now cb)" by (rule unwindowed_currentState)
  let ?cb1 = "currentState now cb"
  show ?thesis
  proof (cases "admissible ?cb1")
    case True
    then have "GetState ?cb1 \<noteq> StateOpen" by (simp add: admissible_def)
    with u1 have c: "interval ?cb1 = 0" "GetState ?cb1 = StateClosed" "expiry ?cb1 = 0"
      by (simp_all add: unwindowed_def)
    let ?cb2 = "?cb1\<lparr>stats := request (stats ?cb1)\<rparr>"
    have "unwindowed (snd (Process ord tact (if failed then NotOk else Ok) ?cb2
            :: unit error option \<times> CircuitBreaker))"
      using c by (intro unwindowed_Process_Closed) simp_all
    then show ?thesis using True ExecuteCall by (simp add: step_Execute del: step.simps)
  next
    case False
    then show ?thesis using ExecuteCall u1 by (simp add: step_Execute del: step.simps)
  qed
next
  case (StateCall now)
  assume "unwindowed cb"
  then show ?thesis using StateCall by (simp add: State_def Let_def unwindowed_currentState)
qed

lemma unwindowed_run: "unwindowed cb \<Longrightarrow> unwindowed (run ord cs cb)"
  by (induction cs arbitrary: cb) (simp_all add: unwindowed_step)

lemma unwindowed_New: "Interval settings = 0 \<Longrightarrow> unwindowed (New settings now)"
  by (simp add: New_def unwindowed_def generate_def Let_def GetState_def zero_def)

lemma currentState_unwindowed:
  "unwindowed cb \<Longrightarrow> GetState cb = StateClosed \<Longrightarrow> currentState now cb = cb"
  by (simp add: unwindowed_def currentState_def IsZero_def)

subsection \<open>The state after a call\<close>

lemma GetState_step_Open: "GetState cb = StateOpen \<Longrightarrow> GetState (step ord c cb) = StateOpen"
proof (cases c)
  case (ExecuteCall now tact failed)
  assume "GetState cb = StateOpen"
  then have "\<not> admissible (currentState now cb)"
    by (simp add: admissible_def GetState_currentState)
  then show ?thesis using ExecuteCall \<open>GetState cb = StateOpen\<close>
    by (simp add: step_Execute GetState_currentState del: step.simps)
next
  case (StateCall now)
  assume "GetState cb = StateOpen"
  then show ?thesis using StateCall by (simp add: State_def Let_def GetState_currentState)
qed

lemma GetState_run_Open: "GetState cb = StateOpen \<Longrightarrow> GetState (run ord cs cb) = StateOpen"
  by (induction cs arbitrary: cb) (simp_all add: GetState_step_Open)

lemma GetState_Process_Open:
  "GetState cb = StateOpen \<Longrightarrow> GetState (snd (Process ord tact inp cb)) = StateOpen"
  by (cases inp; cases ord) (simp_all add: snd_Process, simp_all add: GetState_def)

lemma Execute_Closed_failure_opens:
  assumes "GetState cb = StateClosed" and "snd (fst (req w)) = Some e"
  shows "GetState (snd (snd (Execute ord req now tact w cb))) = StateOpen"
proof -
  have c: "GetState (currentState now cb) = StateClosed"
    using assms(1) by (simp add: GetState_currentState)
  then have a: "admissible (currentState now cb)"
    by (simp add: admissible_def)
  show ?thesis using assms(2) a c
    by (cases ord)
       (simp_all add: snd_snd_Execute fst_admit snd_admit snd_Process
          ClosedNotOkAction_def Let_def GetState_generate, simp_all add: GetState_def)
qed

lemma Execute_HalfOpen_success_closes:
  assumes "GetState cb = StateHalfOpen" and "Requests (stats cb) < maxRequests cb"
    and "snd (fst (req w)) = None"
  shows "GetState (snd (snd (Execute ord req now tact w cb))) = StateClosed"
proof -
  have c: "currentState now cb = cb"
    using assms(1) by (simp add: currentState_def)
  have a: "admissible cb"
    using assms(1,2) by (simp add: admissible_def)
  show ?thesis using assms a c
    by (cases ord)
       (simp_all add: snd_snd_Execute fst_admit snd_admit snd_Process
          HalfOpenOkAction_def Let_def GetState_generate, simp_all add: GetState_def)
qed


text \<open>In the other order the action runs in Half-Open and the expiry is unset.\<close>

lemma Process_HalfOpen_NotOk_ActionFirst:
  "GetState cb = StateHalfOpen \<Longrightarrow>
   Process ActionFirst tact NotOk cb =
     (None, cb\<lparr>generation := generation cb + 1, stats := zeroStats,
              expiry := 0, fsm := StateOpen\<rparr>)"
  by (simp add: Process_def HalfOpenNotOkAction_def generate_HalfOpen)

text \<open>The bound on the admitted calls is attained: two of three probes are admitted.\<close>

lemma admitted_probing: "admitted [2000, 2001, 2002] probing = 2"
  by (simp add: eval_defs word_le_nat_alt)

subsection \<open>Locking\<close>

lemma released_Process_events: "released False (Process_events inp cb)"
  by (simp add: Process_events_def action_events_def split: option.splits prod.splits)

section \<open>The claims\<close>

text \<open>
  C1. The claim: while Closed, a recorded failure opens the breaker exactly when
  \<open>readyToTrip\<close> holds of the counters taken right after the failure was recorded, and
  the breaker stays Closed when it does not hold. The code does otherwise: the rule
  for \<open>(StateClosed, NotOk)\<close> leads to \<open>StateOpen\<close> whatever \<open>readyToTrip\<close> answers. A
  breaker with the default settings, whose predicate asks for more than five
  consecutive failures, is open after its first failing call, with one failure counted
  and the predicate false, in either order of action and state change.
\<close>

theorem C1_first_failure_opens:
  "GetState (New defaultSettings 1000) = StateClosed \<and>
   stats (afterFailure ActionFirst) =
     \<lparr>Requests = 1, TotalSuccesses = 0, TotalFailures = 1,
      ConsecutiveSuccesses = 0, ConsecutiveFailures = 1\<rparr> \<and>
   \<not> readyToTrip (afterFailure ActionFirst) (stats (afterFailure ActionFirst)) \<and>
   GetState (afterFailure ActionFirst) = StateOpen \<and>
   stats (afterFailure StateFirst) =
     \<lparr>Requests = 1, TotalSuccesses = 0, TotalFailures = 1,
      ConsecutiveSuccesses = 0, ConsecutiveFailures = 1\<rparr> \<and>
   \<not> readyToTrip (afterFailure StateFirst) (stats (afterFailure StateFirst)) \<and>
   GetState (afterFailure StateFirst) = StateOpen"
  by (simp add: eval_defs)

text \<open>
  C2. The claim: a call made while Open at or after the expiry moves the breaker to
  Half-Open and zeroes the counters before the admission decision. In the code
  \<open>currentState\<close> only calls \<open>generate\<close>, which never writes the state: the breaker
  tripped at time 2001 with a timeout of 100 is still Open at time 3000, its expiry is
  moved to 3100, \<open>State\<close> reports Open and \<open>Execute\<close> rejects the call without invoking
  the operation.
\<close>

theorem C2_expired_open_stays_open:
  "GetState (tripped StateFirst) = StateOpen \<and>
   expiry (tripped StateFirst) = 2101 \<and>
   GetState (currentState 3000 (tripped StateFirst)) = StateOpen \<and>
   expiry (currentState 3000 (tripped StateFirst)) = 3100 \<and>
   fst (State 3000 (tripped StateFirst)) = StateOpen \<and>
   Execute StateFirst succeeding 3000 3001 0 (tripped StateFirst) =
     ((None, Some ErrOpenState), 0, currentState 3000 (tripped StateFirst)) \<and>
   GetState (tripped ActionFirst) = StateOpen \<and>
   expiry (tripped ActionFirst) = 0 \<and>
   GetState (currentState 3000 (tripped ActionFirst)) = StateOpen \<and>
   expiry (currentState 3000 (tripped ActionFirst)) = 3100 \<and>
   fst (State 3000 (tripped ActionFirst)) = StateOpen \<and>
   Execute ActionFirst succeeding 3000 3001 0 (tripped ActionFirst) =
     ((None, Some ErrOpenState), 0, currentState 3000 (tripped ActionFirst))"
  by (simp add: eval_defs)

text \<open>
  C3. While the breaker is Open and the clock has not reached the expiry, \<open>Execute\<close>
  returns \<open>ErrOpenState\<close> with a nil result, the operation is not invoked (the world is
  the one given) and the breaker is unchanged.
\<close>

theorem C3_open_rejects:
  assumes "GetState cb = StateOpen" and "now < expiry cb"
  shows "Execute ord req now tact w cb = ((None, Some ErrOpenState), w, cb)"
  using assms by (simp add: Execute_def admit_Open currentState_Open_early)

theorem C3_open_rejects_witness:
  "GetState (tripped StateFirst) = StateOpen \<and> 2050 < expiry (tripped StateFirst) \<and>
   Execute StateFirst succeeding 2050 2051 0 (tripped StateFirst) =
     ((None, Some ErrOpenState), 0, tripped StateFirst)"
proof -
  have h1: "GetState (tripped StateFirst) = StateOpen"
    by (simp add: eval_defs)
  have h2: "2050 < expiry (tripped StateFirst)"
    by (simp add: eval_defs)
  show ?thesis
    using C3_open_rejects [OF h1 h2, where ord = StateFirst and req = succeeding
        and tact = 2051 and w = 0] h1 h2
    by simp
qed

text \<open>
  C4. While the breaker is Half-Open, a call of \<open>Execute\<close> that finds \<open>stats.requests\<close>
  at or above \<open>maxRequests\<close> returns \<open>ErrTooManyRequests\<close> with a nil result, does not
  invoke the operation and leaves the breaker as it was. And when the admission halves
  of any number of calls run one after the other with no outcome fed back in between,
  the number of calls admitted, each of which invokes the operation once, is at most
  \<open>maxRequests\<close> less the requests already counted: at most \<open>maxRequests\<close> in a
  generation.
\<close>

theorem C4_half_open_quota:
  assumes "GetState cb = StateHalfOpen"
  shows "(maxRequests cb \<le> Requests (stats cb) \<longrightarrow>
            Execute ord req now tact w cb = ((None, Some ErrTooManyRequests), w, cb)) \<and>
         admitted ts cb \<le> unat (maxRequests cb) - unat (Requests (stats cb))"
  using assms by (simp add: Execute_def admit_HalfOpen_full admitted_bound)

theorem C4_half_open_quota_witness:
  "GetState probingFull = StateHalfOpen \<and>
   maxRequests probingFull \<le> Requests (stats probingFull) \<and>
   Execute StateFirst succeeding 2000 2001 0 probingFull =
     ((None, Some ErrTooManyRequests), 0, probingFull) \<and>
   GetState probing = StateHalfOpen \<and>
   admitted [2000, 2001, 2002] probing \<le> 2"
proof -
  have h1: "GetState probingFull = StateHalfOpen"
    by (simp add: probingFull_def eval_defs)
  have h2: "maxRequests probingFull \<le> Requests (stats probingFull)"
    by (simp add: probingFull_def eval_defs)
  have h3: "GetState probing = StateHalfOpen"
    by (simp add: eval_defs)
  have v: "unat (maxRequests probing) - unat (Requests (stats probing)) = 2"
    by (simp add: eval_defs)
  show ?thesis
    using C4_half_open_quota [OF h1, where ord = StateFirst and req = succeeding
        and now = 2000 and tact = 2001 and w = 0 and ts = "[]"]
      C4_half_open_quota [OF h3, where ord = StateFirst and req = succeeding
        and now = 2000 and tact = 2001 and w = 0 and ts = "[2000, 2001, 2002]"]
      h1 h2 h3 v
    by simp
qed






text \<open>
  C8. The claim: for a Closed breaker with a positive interval, the refresh of the next
  call with \<open>now >= expiry\<close> zeroes the counters and sets the expiry to
  \<open>now + interval\<close>; with interval 0 the counters are never reset by the clock. The
  first half fails at \<open>now = expiry\<close>, because \<open>Before\<close> is strict: the breaker whose
  window ends at 1500 keeps its counters and its expiry when \<open>State\<close> is called at 1500.
\<close>

theorem C8_boundary_not_reset:
  "GetState (windowed StateFirst) = StateClosed \<and> 0 < interval (windowed StateFirst) \<and>
   expiry (windowed StateFirst) = 1500 \<and>
   stats (snd (State 1500 (windowed StateFirst))) =
     \<lparr>Requests = 1, TotalSuccesses = 1, TotalFailures = 0,
      ConsecutiveSuccesses = 1, ConsecutiveFailures = 0\<rparr> \<and>
   expiry (snd (State 1500 (windowed StateFirst))) = 1500 \<and>
   GetState (windowed ActionFirst) = StateClosed \<and> 0 < interval (windowed ActionFirst) \<and>
   expiry (windowed ActionFirst) = 1500 \<and>
   stats (snd (State 1500 (windowed ActionFirst))) =
     \<lparr>Requests = 1, TotalSuccesses = 1, TotalFailures = 0,
      ConsecutiveSuccesses = 1, ConsecutiveFailures = 0\<rparr> \<and>
   expiry (snd (State 1500 (windowed ActionFirst))) = 1500"
  by (simp add: eval_defs)

text \<open>
  C8, amended. For a Closed breaker with a positive interval and an expiry that is set,
  the refresh at a time strictly after the expiry starts a new generation: the counters
  are zeroed, the expiry becomes \<open>now + interval\<close> and the state stays Closed. A breaker
  made with interval 0 is, whenever it is Closed after any calls of \<open>Execute\<close> and
  \<open>State\<close>, left as it is by the refresh at any time.
\<close>

theorem C8_closed_window_rollover:
  "(GetState cb = StateClosed \<longrightarrow> 0 < interval cb \<longrightarrow> \<not> IsZero (expiry cb) \<longrightarrow>
      expiry cb < now \<longrightarrow>
      currentState now cb =
        cb\<lparr>generation := generation cb + 1, stats := zeroStats,
           expiry := now + interval cb\<rparr> \<and>
      GetState (currentState now cb) = StateClosed) \<and>
   (Interval settings = 0 \<longrightarrow> GetState (run ord cs (New settings now0)) = StateClosed \<longrightarrow>
      currentState now' (run ord cs (New settings now0)) = run ord cs (New settings now0))"
proof (intro conjI impI)
  assume a: "GetState cb = StateClosed" "0 < interval cb" "\<not> IsZero (expiry cb)"
    "expiry cb < now"
  then show "currentState now cb =
        cb\<lparr>generation := generation cb + 1, stats := zeroStats,
           expiry := now + interval cb\<rparr>"
    by (simp add: currentState_def Before_def generate_Closed)
  show "GetState (currentState now cb) = StateClosed"
    using a by (simp add: GetState_currentState)
next
  assume "Interval settings = 0"
    and c: "GetState (run ord cs (New settings now0)) = StateClosed"
  then have "unwindowed (run ord cs (New settings now0))"
    by (intro unwindowed_run unwindowed_New)
  then show "currentState now' (run ord cs (New settings now0)) = run ord cs (New settings now0)"
    using c by (rule currentState_unwindowed)
qed

theorem C8_closed_window_rollover_witness:
  "GetState (windowed StateFirst) = StateClosed \<and> 0 < interval (windowed StateFirst) \<and>
   \<not> IsZero (expiry (windowed StateFirst)) \<and> expiry (windowed StateFirst) < 1501 \<and>
   currentState 1501 (windowed StateFirst) =
     (windowed StateFirst)\<lparr>generation := 2, stats := zeroStats, expiry := 2001\<rparr> \<and>
   Interval defaultSettings = 0 \<and>
   GetState (run StateFirst [ExecuteCall 2000 2001 False] (New defaultSettings 1000))
     = StateClosed \<and>
   currentState 5000 (run StateFirst [ExecuteCall 2000 2001 False] (New defaultSettings 1000))
     = run StateFirst [ExecuteCall 2000 2001 False] (New defaultSettings 1000)"
proof -
  have h1: "GetState (windowed StateFirst) = StateClosed"
    by (simp add: eval_defs)
  have h2: "0 < interval (windowed StateFirst)"
    by (simp add: eval_defs)
  have h3: "\<not> IsZero (expiry (windowed StateFirst))"
    by (simp add: eval_defs)
  have h4: "expiry (windowed StateFirst) < 1501"
    by (simp add: eval_defs)
  have v: "generation (windowed StateFirst) = 1 \<and> interval (windowed StateFirst) = 500"
    by (simp add: eval_defs)
  have h5: "Interval defaultSettings = 0"
    by (simp add: defaultSettings_def)
  have h6: "GetState (run StateFirst [ExecuteCall 2000 2001 False] (New defaultSettings 1000))
     = StateClosed"
    by (simp add: eval_defs outcome_def)
  show ?thesis
    using C8_closed_window_rollover [of "windowed StateFirst" 1501 defaultSettings StateFirst
        "[ExecuteCall 2000 2001 False]" 1000 5000]
      h1 h2 h3 h4 h5 h6 v
    by simp
qed

text \<open>
  C9. The claim: every read and write of state, stats, expiry and generation made by
  \<open>Execute\<close> and \<open>State\<close> happens inside the critical section of the mutex, \<open>Execute\<close>
  locking before its refresh and admission check, and the mutex is not held while the
  guarded operation runs. \<open>State\<close> and the actions do lock, and the mutex is free when
  the operation is invoked; but \<open>Execute\<close> never locks, so on every path its refresh and
  its admission check, and the count of the request, run outside the critical section.
\<close>

theorem C9_execute_admission_unlocked:
  "guarded False State_events \<and>
   guarded False (Process_events inp cb) \<and>
   released False (Execute_events now failed cb) \<and>
   \<not> guarded False (Execute_events now failed cb)"
  by (simp add: State_events_def Execute_events_def Let_def released_Process_events,
      simp add: Process_events_def action_events_def split: option.splits prod.splits)

text \<open>
  C10. Once the breaker is Open it stays Open through every sequence of calls of
  \<open>Execute\<close> and \<open>State\<close>, whatever the times and outcomes: the refresh keeps the state,
  the admission check rejects the call with \<open>ErrOpenState\<close>, and \<open>Process\<close> started in
  Open ends in Open for either input.
\<close>

theorem C10_open_absorbing:
  assumes "GetState cb = StateOpen"
  shows "GetState (run ord cs cb) = StateOpen \<and>
         GetState (currentState now cb) = StateOpen \<and>
         fst (admit now cb :: 'e error option \<times> CircuitBreaker) = Some ErrOpenState \<and>
         GetState (snd (Process ord tact inp cb :: 'e error option \<times> CircuitBreaker))
           = StateOpen"
  using assms
  by (simp add: GetState_run_Open GetState_currentState admit_Open GetState_Process_Open)

theorem C10_open_absorbing_witness:
  "GetState (tripped StateFirst) = StateOpen \<and>
   GetState (run StateFirst
      [ExecuteCall 2050 2051 False, StateCall 3000, ExecuteCall 4000 4001 True,
       ExecuteCall 70000000000 70000000001 False, StateCall 140000000000]
      (tripped StateFirst)) = StateOpen"
proof -
  have h: "GetState (tripped StateFirst) = StateOpen"
    by (simp add: eval_defs)
  show ?thesis
    using C10_open_absorbing [OF h, where ?'e = unit and ord = StateFirst and cs =
        "[ExecuteCall 2050 2051 False, StateCall 3000, ExecuteCall 4000 4001 True,
          ExecuteCall 70000000000 70000000001 False, StateCall 140000000000]"] h
    by simp
qed

end
